theory Spec2Isabelle
  imports Main
begin

section \<open>The selection set of cdk-experimental/selection/selection-set.ts\<close>

text \<open>
  The class \<open>SelectionSet<T>\<close> keeps a JavaScript \<open>Map\<close> from identity keys to the
  selected entries and a \<open>Subject\<close> on which it publishes one \<open>{before, after}\<close> event
  per completed call. The embedding below follows the class member by member:
  \<^item> the object is a record that is passed in and returned updated;
  \<^item> a JavaScript \<open>Map\<close> enumerates in insertion order, so the map is an association
    list in that order (\<open>set\<close> on a present key keeps its position, \<open>delete\<close> removes
    the entry, \<open>values()\<close> lists the entries);
  \<^item> the \<open>Subject\<close> is the list of the events handed to \<open>next\<close>, oldest first;
  \<^item> \<open>throw Error(...)\<close> is a value of type \<open>error\<close>; a method that mutates returns
    the pair of the error, if any, and the object as the throw left it;
  \<^item> the ambient \<open>isDevMode()\<close> is the first argument \<open>dev\<close> of every method.

  Two things outside the class are taken as well-behaved: the \<open>trackByFn\<close> is a function
  of its two arguments that returns, and the subscribers of \<open>changed\<close> do not call back
  into the object while an event is delivered. Keys are compared by HOL equality, which
  stands for the \<open>SameValueZero\<close> comparison of the JavaScript \<open>Map\<close>.
\<close>

subsection \<open>Data\<close>

text \<open>
  \<open>SelectableWithIndex<T>\<close>: a value with an optional index. The class only tests the
  index for absence and hands it to the \<open>trackByFn\<close>, so integers stand for
  JavaScript's numbers. The field \<open>value\<close> is written \<open>val\<close>, and the private members
  lose their leading underscore.
\<close>

record 'a SelectableWithIndex =
  val :: 'a
  index :: "int option"

text \<open>\<open>SelectionChange<T>\<close>: the snapshots before and after a call.\<close>

record 'a SelectionChange =
  before :: "'a SelectableWithIndex list"
  after :: "'a SelectableWithIndex list"

text \<open>
  The key type \<open>T | ReturnType<TrackByFunction<T>>\<close>: the value itself, or what the
  \<open>trackByFn\<close> returned. One object only ever uses one of the two, since its \<open>trackByFn\<close>
  is fixed by the constructor.
\<close>

datatype ('a, 'k) key = ByValue 'a | ByTrack 'k

text \<open>The two errors the class throws, named after their messages.\<close>

datatype error =
    NotMultiple     \<comment> \<open>\<open>'SelectionSet: not multiple selection'\<close>\<close>
  | IndexRequired   \<comment> \<open>\<open>'SelectionSet: index required when trackByFn is used.'\<close>\<close>

text \<open>
  The fields of the class. The \<open>trackByFn\<close> receives the index as it is stored in the
  entry, so an absent index reaches it as \<open>None\<close> (JavaScript's \<open>undefined\<close>).
\<close>

record ('a, 'k) SelectionSet =
  multiple :: bool
  trackByFn :: "(int option \<Rightarrow> 'a \<Rightarrow> 'k) option"
  selectionMap :: "(('a, 'k) key \<times> 'a SelectableWithIndex) list"
  changed :: "'a SelectionChange list"

text \<open>\<open>constructor(private _multiple = false, private _trackByFn?)\<close>\<close>

definition new_SelectionSet ::
  "bool \<Rightarrow> (int option \<Rightarrow> 'a \<Rightarrow> 'k) option \<Rightarrow> ('a, 'k) SelectionSet" where
  "new_SelectionSet m f = \<lparr>multiple = m, trackByFn = f, selectionMap = [], changed = []\<rparr>"

subsection \<open>The operations of a JavaScript Map used by the class\<close>

text \<open>
  \<open>has\<close>, \<open>set\<close>, \<open>delete\<close> and \<open>values\<close> (\<open>clear\<close> is the empty list). \<open>set\<close> replaces the
  value of a present key where it stands and appends an absent key at the end.
\<close>

definition map_has :: "('k \<times> 'v) list \<Rightarrow> 'k \<Rightarrow> bool" where
  "map_has m k = (k \<in> set (map fst m))"

primrec map_set :: "'k \<Rightarrow> 'v \<Rightarrow> ('k \<times> 'v) list \<Rightarrow> ('k \<times> 'v) list" where
  "map_set k v [] = [(k, v)]"
| "map_set k v (p # ps) = (if fst p = k then (k, v) # ps else p # map_set k v ps)"

definition map_delete :: "'k \<Rightarrow> ('k \<times> 'v) list \<Rightarrow> ('k \<times> 'v) list" where
  "map_delete k m = filter (\<lambda>p. fst p \<noteq> k) m"

definition map_values :: "('k \<times> 'v) list \<Rightarrow> 'v list" where
  "map_values m = map snd m"

subsection \<open>The private methods\<close>

text \<open>
  \<^verbatim>\<open>_markSelected(key, toSelect) { this._selectionMap.set(key, toSelect); }\<close>

  \<^verbatim>\<open>_markDeselected(key) { this._selectionMap.delete(key); }\<close>
\<close>

definition markSelected ::
  "('a, 'k) SelectionSet \<Rightarrow> ('a, 'k) key \<Rightarrow> 'a SelectableWithIndex \<Rightarrow> ('a, 'k) SelectionSet" where
  "markSelected s k toSelect = s\<lparr>selectionMap := map_set k toSelect (selectionMap s)\<rparr>"

definition markDeselected ::
  "('a, 'k) SelectionSet \<Rightarrow> ('a, 'k) key \<Rightarrow> ('a, 'k) SelectionSet" where
  "markDeselected s k = s\<lparr>selectionMap := map_delete k (selectionMap s)\<rparr>"

text \<open>
  \<^verbatim>\<open>if (!this._trackByFn) { return select.value; }\<close>

  \<^verbatim>\<open>if (select.index == null && isDevMode()) { throw Error('... index required ...'); }\<close>

  \<^verbatim>\<open>return this._trackByFn(select.index!, select.value);\<close>
\<close>

definition getTrackedByValue ::
  "bool \<Rightarrow> ('a, 'k) SelectionSet \<Rightarrow> 'a SelectableWithIndex \<Rightarrow> error + ('a, 'k) key" where
  "getTrackedByValue dev s sel =
     (case trackByFn s of
        None \<Rightarrow> Inr (ByValue (val sel))
      | Some f \<Rightarrow>
          if index sel = None \<and> dev then Inl IndexRequired
          else Inr (ByTrack (f (index sel) (val sel))))"

text \<open>
  The key that \<open>_getTrackedByValue\<close> returns when it returns: the two \<open>return\<close>
  statements above without the \<open>throw\<close> between them. The theorems use it to name the
  key of an entry; \<open>getTrackedByValue_keyOf\<close> below relates the two.
\<close>

definition keyOf :: "('a, 'k) SelectionSet \<Rightarrow> 'a SelectableWithIndex \<Rightarrow> ('a, 'k) key" where
  "keyOf s sel =
     (case trackByFn s of
        None \<Rightarrow> ByValue (val sel)
      | Some f \<Rightarrow> ByTrack (f (index sel) (val sel)))"

text \<open>\<^verbatim>\<open>return Array.from(this._selectionMap.values());\<close>\<close>

definition getCurrentSelection :: "('a, 'k) SelectionSet \<Rightarrow> 'a SelectableWithIndex list" where
  "getCurrentSelection s = map_values (selectionMap s)"

subsection \<open>The public methods\<close>

text \<open>\<^verbatim>\<open>return this._selectionMap.has(this._getTrackedByValue(value));\<close>\<close>

definition isSelected ::
  "bool \<Rightarrow> ('a, 'k) SelectionSet \<Rightarrow> 'a SelectableWithIndex \<Rightarrow> error + bool" where
  "isSelected dev s sel =
     (case getTrackedByValue dev s sel of
        Inl e \<Rightarrow> Inl e
      | Inr k \<Rightarrow> Inr (map_has (selectionMap s) k))"

text \<open>
  The \<open>for\<close> loop of \<open>select\<close>. A throw inside it leaves the loop with the map as it
  is at that moment. The local array \<open>toSelect\<close> is written and never read, so it is
  left out.
\<close>

fun select_loop ::
  "bool \<Rightarrow> ('a, 'k) SelectionSet \<Rightarrow> 'a SelectableWithIndex list
     \<Rightarrow> error option \<times> ('a, 'k) SelectionSet" where
  "select_loop dev s [] = (None, s)"
| "select_loop dev s (x # xs) =
     (case isSelected dev s x of
        Inl e \<Rightarrow> (Some e, s)
      | Inr True \<Rightarrow> select_loop dev s xs
      | Inr False \<Rightarrow>
          (case getTrackedByValue dev s x of
             Inl e \<Rightarrow> (Some e, s)
           | Inr k \<Rightarrow> select_loop dev (markSelected s k x) xs))"

text \<open>
  \<open>select\<close>: the check on the number of entries, the snapshot \<open>before\<close>, the \<open>clear\<close> in
  single-selection mode, the loop, the snapshot \<open>after\<close> and \<open>changed.next\<close>, in the
  order of the source.
\<close>

definition select ::
  "bool \<Rightarrow> ('a, 'k) SelectionSet \<Rightarrow> 'a SelectableWithIndex list
     \<Rightarrow> error option \<times> ('a, 'k) SelectionSet" where
  "select dev s selects =
     (if \<not> multiple s \<and> length selects > 1 \<and> dev then (Some NotMultiple, s)
      else
        let before = getCurrentSelection s;
            s1 = (if \<not> multiple s then s\<lparr>selectionMap := []\<rparr> else s)
        in case select_loop dev s1 selects of
             (Some e, s2) \<Rightarrow> (Some e, s2)
           | (None, s2) \<Rightarrow>
               (None, s2\<lparr>changed := changed s2 @
                  [\<lparr>before = before, after = getCurrentSelection s2\<rparr>]\<rparr>))"

text \<open>The \<open>for\<close> loop of \<open>deselect\<close>; \<open>toDeselect\<close> is left out as above.\<close>

fun deselect_loop ::
  "bool \<Rightarrow> ('a, 'k) SelectionSet \<Rightarrow> 'a SelectableWithIndex list
     \<Rightarrow> error option \<times> ('a, 'k) SelectionSet" where
  "deselect_loop dev s [] = (None, s)"
| "deselect_loop dev s (x # xs) =
     (case isSelected dev s x of
        Inl e \<Rightarrow> (Some e, s)
      | Inr False \<Rightarrow> deselect_loop dev s xs
      | Inr True \<Rightarrow>
          (case getTrackedByValue dev s x of
             Inl e \<Rightarrow> (Some e, s)
           | Inr k \<Rightarrow> deselect_loop dev (markDeselected s k) xs))"

text \<open>\<open>deselect\<close>: as \<open>select\<close>, without the \<open>clear\<close>.\<close>

definition deselect ::
  "bool \<Rightarrow> ('a, 'k) SelectionSet \<Rightarrow> 'a SelectableWithIndex list
     \<Rightarrow> error option \<times> ('a, 'k) SelectionSet" where
  "deselect dev s selects =
     (if \<not> multiple s \<and> length selects > 1 \<and> dev then (Some NotMultiple, s)
      else
        let before = getCurrentSelection s
        in case deselect_loop dev s selects of
             (Some e, s2) \<Rightarrow> (Some e, s2)
           | (None, s2) \<Rightarrow>
               (None, s2\<lparr>changed := changed s2 @
                  [\<lparr>before = before, after = getCurrentSelection s2\<rparr>]\<rparr>))"

subsection \<open>Sequences of calls\<close>

text \<open>
  A caller's program is a list of calls, each made under some value of the diagnostic
  flag. A call that throws leaves the object as the throw found it, and the next call
  works on that object.
\<close>

datatype 'a call =
    Select "'a SelectableWithIndex list"
  | Deselect "'a SelectableWithIndex list"

fun step :: "('a, 'k) SelectionSet \<Rightarrow> bool \<times> 'a call \<Rightarrow> ('a, 'k) SelectionSet" where
  "step s (dev, Select xs) = snd (select dev s xs)"
| "step s (dev, Deselect xs) = snd (deselect dev s xs)"

definition run :: "('a, 'k) SelectionSet \<Rightarrow> (bool \<times> 'a call) list \<Rightarrow> ('a, 'k) SelectionSet" where
  "run s cs = foldl step s cs"

text \<open>
  The calls that stay within the single-selection contract whatever the mode of the
  object: a \<open>select\<close> made with the diagnostic flag on, or with at most one entry.
\<close>

fun within_contract :: "bool \<times> 'a call \<Rightarrow> bool" where
  "within_contract (dev, Select xs) = (dev \<or> length xs \<le> 1)"
| "within_contract (dev, Deselect xs) = True"

subsection \<open>Sample data\<close>

text \<open>
  A \<open>trackByFn\<close> for the concrete instances below: an item is a pair of an identifier
  and a payload, and its identity is the identifier, whatever the index.
\<close>

definition track_by_id :: "int option \<Rightarrow> nat \<times> nat \<Rightarrow> nat" where
  "track_by_id i v = fst v"

text \<open>A single-selection object without \<open>trackByFn\<close>, over numbers as items.\<close>

definition single_set :: "(nat, nat) SelectionSet" where
  "single_set = new_SelectionSet False None"

text \<open>The same in multiple-selection mode.\<close>

definition multiple_set :: "(nat, nat) SelectionSet" where
  "multiple_set = new_SelectionSet True None"

section \<open>Properties\<close>

subsection \<open>What the loops leave alone\<close>

lemma select_loop_fields:
  "multiple (snd (select_loop dev s xs)) = multiple s \<and>
   trackByFn (snd (select_loop dev s xs)) = trackByFn s \<and>
   changed (snd (select_loop dev s xs)) = changed s"
  by (induction xs arbitrary: s)
     (auto simp: markSelected_def split: sum.splits bool.splits)

lemma deselect_loop_fields:
  "multiple (snd (deselect_loop dev s xs)) = multiple s \<and>
   trackByFn (snd (deselect_loop dev s xs)) = trackByFn s \<and>
   changed (snd (deselect_loop dev s xs)) = changed s"
  by (induction xs arbitrary: s)
     (auto simp: markDeselected_def split: sum.splits bool.splits)

lemma select_changed:
  "changed (snd (select dev s xs)) =
     (if fst (select dev s xs) = None
      then changed s @ [\<lparr>before = getCurrentSelection s,
                         after = getCurrentSelection (snd (select dev s xs))\<rparr>]
      else changed s)"
proof (cases "\<not> multiple s \<and> length xs > 1 \<and> dev")
  case True
  then show ?thesis by (simp add: select_def)
next
  case False
  define s1 where "s1 = (if \<not> multiple s then s\<lparr>selectionMap := []\<rparr> else s)"
  obtain r s2 where l: "select_loop dev s1 xs = (r, s2)" by (cases "select_loop dev s1 xs")
  have c: "changed s2 = changed s"
    using select_loop_fields [of dev s1 xs] l by (simp add: s1_def)
  show ?thesis
    using False l c
    by (cases r) (simp_all add: select_def Let_def s1_def [symmetric] getCurrentSelection_def)
qed

lemma deselect_changed:
  "changed (snd (deselect dev s xs)) =
     (if fst (deselect dev s xs) = None
      then changed s @ [\<lparr>before = getCurrentSelection s,
                         after = getCurrentSelection (snd (deselect dev s xs))\<rparr>]
      else changed s)"
proof (cases "\<not> multiple s \<and> length xs > 1 \<and> dev")
  case True
  then show ?thesis by (simp add: deselect_def)
next
  case False
  obtain r s2 where l: "deselect_loop dev s xs = (r, s2)" by (cases "deselect_loop dev s xs")
  have c: "changed s2 = changed s"
    using deselect_loop_fields [of dev s xs] l by simp
  show ?thesis
    using False l c
    by (cases r) (simp_all add: deselect_def Let_def getCurrentSelection_def)
qed

subsection \<open>Key derivation and the map operations\<close>

lemma getTrackedByValue_upd [simp]:
  "getTrackedByValue dev (s\<lparr>selectionMap := m\<rparr>) x = getTrackedByValue dev s x"
  "getTrackedByValue dev (s\<lparr>changed := c\<rparr>) x = getTrackedByValue dev s x"
  by (simp_all add: getTrackedByValue_def)

lemma getTrackedByValue_prod:
  "\<exists>k. getTrackedByValue False s x = Inr k"
  by (simp add: getTrackedByValue_def split: option.splits)

lemma keys_map_set: "fst ` set (map_set k v m) = insert k (fst ` set m)"
  by (induction m) auto

lemma map_has_map_set: "map_has (map_set k v m) k' = (k' = k \<or> map_has m k')"
  by (auto simp: map_has_def keys_map_set)

lemma map_has_map_delete: "map_has (map_delete k m) k' = (k' \<noteq> k \<and> map_has m k')"
  by (auto simp: map_has_def map_delete_def)

lemma map_set_fresh: "\<not> map_has m k \<Longrightarrow> map_set k v m = m @ [(k, v)]"
  by (induction m) (auto simp: map_has_def)

lemma length_map_set: "length (map_set k v m) \<le> Suc (length m)"
  by (induction m) auto

lemma length_map_delete: "length (map_delete k m) \<le> length m"
  by (simp add: map_delete_def)

lemma select_loop_length:
  "length (selectionMap (snd (select_loop dev s xs))) \<le> length (selectionMap s) + length xs"
proof (induction xs arbitrary: s)
  case Nil
  show ?case by simp
next
  case (Cons x xs)
  show ?case
  proof (cases "isSelected dev s x")
    case (Inl e)
    then show ?thesis by simp
  next
    case (Inr b)
    show ?thesis
    proof (cases b)
      case True
      with Inr Cons.IH [of s] show ?thesis by simp
    next
      case False
      show ?thesis
      proof (cases "getTrackedByValue dev s x")
        case (Inl e)
        with Inr False show ?thesis by simp
      next
        case k: (Inr k)
        have "length (selectionMap (markSelected s k x)) \<le> Suc (length (selectionMap s))"
          by (simp add: markSelected_def length_map_set)
        with Cons.IH [of "markSelected s k x"] Inr False k show ?thesis by simp
      qed
    qed
  qed
qed

lemma deselect_loop_length:
  "length (selectionMap (snd (deselect_loop dev s xs))) \<le> length (selectionMap s)"
proof (induction xs arbitrary: s)
  case Nil
  show ?case by simp
next
  case (Cons x xs)
  show ?case
  proof (cases "isSelected dev s x")
    case (Inl e)
    then show ?thesis by simp
  next
    case (Inr b)
    show ?thesis
    proof (cases b)
      case False
      with Inr Cons.IH [of s] show ?thesis by simp
    next
      case True
      show ?thesis
      proof (cases "getTrackedByValue dev s x")
        case (Inl e)
        with Inr True show ?thesis by simp
      next
        case k: (Inr k)
        have "length (selectionMap (markDeselected s k)) \<le> length (selectionMap s)"
          by (simp add: markDeselected_def length_map_delete)
        with Cons.IH [of "markDeselected s k"] Inr True k show ?thesis by simp
      qed
    qed
  qed
qed

lemma select_map:
  "selectionMap (snd (select dev s xs)) =
     (if \<not> multiple s \<and> length xs > 1 \<and> dev then selectionMap s
      else selectionMap (snd (select_loop dev
             (if \<not> multiple s then s\<lparr>selectionMap := []\<rparr> else s) xs)))"
  by (simp add: select_def Let_def split: prod.splits option.splits)

lemma deselect_map:
  "selectionMap (snd (deselect dev s xs)) =
     (if \<not> multiple s \<and> length xs > 1 \<and> dev then selectionMap s
      else selectionMap (snd (deselect_loop dev s xs)))"
  by (simp add: deselect_def Let_def split: prod.splits option.splits)

lemma select_multiple: "multiple (snd (select dev s xs)) = multiple s"
  using select_loop_fields [of dev "s\<lparr>selectionMap := []\<rparr>" xs] select_loop_fields [of dev s xs]
  by (auto simp: select_def Let_def split: prod.splits option.splits)

lemma deselect_multiple: "multiple (snd (deselect dev s xs)) = multiple s"
  using deselect_loop_fields [of dev s xs]
  by (auto simp: deselect_def Let_def split: prod.splits option.splits)

lemma step_single:
  assumes "\<not> multiple s" "length (selectionMap s) \<le> 1" "within_contract c"
  shows "\<not> multiple (step s c) \<and> length (selectionMap (step s c)) \<le> 1"
proof (cases c)
  case (Pair dev cl)
  show ?thesis
  proof (cases cl)
    case (Select xs)
    have "length (selectionMap (snd (select dev s xs))) \<le> 1"
    proof (cases "length xs > 1 \<and> dev")
      case True
      with assms show ?thesis by (simp add: select_map)
    next
      case False
      with assms Pair Select have "length xs \<le> 1" by auto
      with select_loop_length [of dev "s\<lparr>selectionMap := []\<rparr>" xs] assms(1) False
      show ?thesis by (simp add: select_map)
    qed
    with assms Pair Select show ?thesis by (simp add: select_multiple)
  next
    case (Deselect xs)
    have "length (selectionMap (snd (deselect dev s xs))) \<le> 1"
      using deselect_loop_length [of dev s xs] assms(2) by (simp add: deselect_map)
    with assms Pair Deselect show ?thesis by (simp add: deselect_multiple)
  qed
qed

lemma run_single:
  "\<not> multiple s \<Longrightarrow> length (selectionMap s) \<le> 1 \<Longrightarrow> list_all within_contract cs \<Longrightarrow>
   length (selectionMap (run s cs)) \<le> 1"
  unfolding run_def
proof (induction cs arbitrary: s)
  case Nil
  then show ?case by simp
next
  case (Cons c cs)
  from Cons.prems have "\<not> multiple (step s c) \<and> length (selectionMap (step s c)) \<le> 1"
    using step_single [of s c] by simp
  with Cons.IH [of "step s c"] Cons.prems show ?case by simp
qed

subsection \<open>The loops with the diagnostic flag off\<close>

lemma isSelected_upd [simp]:
  "isSelected dev (s\<lparr>changed := c\<rparr>) x = isSelected dev s x"
  by (simp add: isSelected_def split: sum.splits)

lemma select_loop_prod: "fst (select_loop False s xs) = None"
proof (induction xs arbitrary: s)
  case Nil
  show ?case by simp
next
  case (Cons x xs)
  obtain k where k: "getTrackedByValue False s x = Inr k"
    using getTrackedByValue_prod by blast
  then show ?case
    using Cons.IH [of s] Cons.IH [of "markSelected s k x"]
    by (simp add: isSelected_def split: bool.splits)
qed

lemma deselect_loop_prod: "fst (deselect_loop False s xs) = None"
proof (induction xs arbitrary: s)
  case Nil
  show ?case by simp
next
  case (Cons x xs)
  obtain k where k: "getTrackedByValue False s x = Inr k"
    using getTrackedByValue_prod by blast
  then show ?case
    using Cons.IH [of s] Cons.IH [of "markDeselected s k"]
    by (simp add: isSelected_def split: bool.splits)
qed

lemma select_loop_keeps:
  "isSelected dev s y = Inr True \<Longrightarrow> isSelected dev (snd (select_loop dev s xs)) y = Inr True"
proof (induction xs arbitrary: s)
  case Nil
  then show ?case by simp
next
  case (Cons x xs)
  have step: "isSelected dev (markSelected s k x) y = Inr True" for k
    using Cons.prems
    by (auto simp: isSelected_def markSelected_def map_has_map_set split: sum.splits)
  show ?case
    using Cons.prems Cons.IH [of s] Cons.IH [OF step]
    by (simp split: sum.splits bool.splits)
qed

lemma select_loop_selects:
  "x \<in> set xs \<Longrightarrow> isSelected False (snd (select_loop False s xs)) x = Inr True"
proof (induction xs arbitrary: s)
  case Nil
  then show ?case by simp
next
  case (Cons y ys)
  obtain k where k: "getTrackedByValue False s y = Inr k"
    using getTrackedByValue_prod by blast
  have new: "isSelected False (markSelected s k y) y = Inr True"
    using k by (simp add: isSelected_def markSelected_def map_has_map_set)
  show ?case
  proof (cases "x = y")
    case True
    show ?thesis
    proof (cases "map_has (selectionMap s) k")
      case True
      with k have "isSelected False s y = Inr True" by (simp add: isSelected_def)
      with select_loop_keeps [of False s y ys] \<open>x = y\<close> show ?thesis by simp
    next
      case False
      with k have "isSelected False s y = Inr False" by (simp add: isSelected_def)
      with k select_loop_keeps [OF new, of ys] \<open>x = y\<close> show ?thesis by simp
    qed
  next
    case False
    with Cons.prems have tl: "x \<in> set ys" by simp
    show ?thesis
    proof (cases "map_has (selectionMap s) k")
      case True
      with k have "isSelected False s y = Inr True" by (simp add: isSelected_def)
      with Cons.IH [OF tl, of s] show ?thesis by simp
    next
      case False
      with k have "isSelected False s y = Inr False" by (simp add: isSelected_def)
      with k Cons.IH [OF tl, of "markSelected s k y"] show ?thesis by simp
    qed
  qed
qed

lemma deselect_loop_keeps:
  "isSelected dev s y = Inr False \<Longrightarrow> isSelected dev (snd (deselect_loop dev s xs)) y = Inr False"
proof (induction xs arbitrary: s)
  case Nil
  then show ?case by simp
next
  case (Cons x xs)
  have step: "isSelected dev (markDeselected s k) y = Inr False" for k
    using Cons.prems
    by (auto simp: isSelected_def markDeselected_def map_has_map_delete split: sum.splits)
  show ?case
    using Cons.prems Cons.IH [of s] Cons.IH [OF step]
    by (simp split: sum.splits bool.splits)
qed

lemma deselect_loop_deselects:
  "x \<in> set xs \<Longrightarrow> isSelected False (snd (deselect_loop False s xs)) x = Inr False"
proof (induction xs arbitrary: s)
  case Nil
  then show ?case by simp
next
  case (Cons y ys)
  obtain k where k: "getTrackedByValue False s y = Inr k"
    using getTrackedByValue_prod by blast
  have gone: "isSelected False (markDeselected s k) y = Inr False"
    using k by (simp add: isSelected_def markDeselected_def map_has_map_delete)
  show ?case
  proof (cases "x = y")
    case True
    show ?thesis
    proof (cases "map_has (selectionMap s) k")
      case False
      with k have "isSelected False s y = Inr False" by (simp add: isSelected_def)
      with deselect_loop_keeps [of False s y ys] \<open>x = y\<close> show ?thesis by simp
    next
      case True
      with k have "isSelected False s y = Inr True" by (simp add: isSelected_def)
      with k deselect_loop_keeps [OF gone, of ys] \<open>x = y\<close> show ?thesis by simp
    qed
  next
    case False
    with Cons.prems have tl: "x \<in> set ys" by simp
    show ?thesis
    proof (cases "map_has (selectionMap s) k")
      case False
      with k have "isSelected False s y = Inr False" by (simp add: isSelected_def)
      with Cons.IH [OF tl, of s] show ?thesis by simp
    next
      case True
      with k have "isSelected False s y = Inr True" by (simp add: isSelected_def)
      with k Cons.IH [OF tl, of "markDeselected s k"] show ?thesis by simp
    qed
  qed
qed

lemma select_prod:
  "select False s xs =
     (None, (snd (select_loop False (if multiple s then s else s\<lparr>selectionMap := []\<rparr>) xs))
        \<lparr>changed := changed s @ [\<lparr>before = getCurrentSelection s,
            after = getCurrentSelection
              (snd (select_loop False (if multiple s then s else s\<lparr>selectionMap := []\<rparr>) xs))\<rparr>]\<rparr>)"
  using select_loop_prod [of "s\<lparr>selectionMap := []\<rparr>" xs] select_loop_prod [of s xs]
    select_loop_fields [of False "s\<lparr>selectionMap := []\<rparr>" xs] select_loop_fields [of False s xs]
  by (auto simp: select_def Let_def split: prod.splits option.splits)

lemma deselect_prod:
  "deselect False s xs =
     (None, (snd (deselect_loop False s xs))
        \<lparr>changed := changed s @ [\<lparr>before = getCurrentSelection s,
            after = getCurrentSelection (snd (deselect_loop False s xs))\<rparr>]\<rparr>)"
  using deselect_loop_prod [of s xs] deselect_loop_fields [of False s xs]
  by (auto simp: deselect_def Let_def split: prod.splits option.splits)

subsection \<open>Calls with one entry\<close>

lemma select_one_raises:
  "getTrackedByValue dev s x = Inl e \<Longrightarrow> fst (select dev s [x]) = Some e"
  by (simp add: select_def Let_def isSelected_def)

lemma select_one_returns:
  "getTrackedByValue dev s x = Inr k \<Longrightarrow> fst (select dev s [x]) = None"
  by (simp add: select_def Let_def isSelected_def split: bool.splits)

lemma deselect_one_raises:
  "getTrackedByValue dev s x = Inl e \<Longrightarrow> fst (deselect dev s [x]) = Some e"
  by (simp add: deselect_def Let_def isSelected_def)

lemma deselect_one_returns:
  "getTrackedByValue dev s x = Inr k \<Longrightarrow> fst (deselect dev s [x]) = None"
  by (simp add: deselect_def Let_def isSelected_def split: bool.splits)

subsection \<open>The calls in closed form\<close>

text \<open>
  When the key of every supplied entry is derived without an error, \<open>select\<close> inserts
  at the end, in the order of the call, each entry whose key is not yet in the map, and
  \<open>deselect\<close> filters the map, keeping the entries whose key belongs to no supplied
  entry in the order they had.
\<close>

lemma getTrackedByValue_keyOf:
  "getTrackedByValue dev s x =
     (if trackByFn s \<noteq> None \<and> index x = None \<and> dev then Inl IndexRequired
      else Inr (keyOf s x))"
  by (simp add: getTrackedByValue_def keyOf_def split: option.splits)

lemma getTrackedByValue_mark [simp]:
  "getTrackedByValue dev (markSelected s k y) x = getTrackedByValue dev s x"
  "getTrackedByValue dev (markDeselected s k) x = getTrackedByValue dev s x"
  by (simp_all add: markSelected_def markDeselected_def)

lemma keyOf_upd [simp]:
  "keyOf (s\<lparr>selectionMap := m\<rparr>) = keyOf s"
  "keyOf (s\<lparr>changed := c\<rparr>) = keyOf s"
  by (simp_all add: keyOf_def fun_eq_iff)

lemma getTrackedByValue_off: "getTrackedByValue False s x = Inr (keyOf s x)"
  by (simp add: getTrackedByValue_keyOf)

lemma select_loop_foldl:
  assumes "\<forall>x \<in> set xs. getTrackedByValue dev s x = Inr (kf x)"
  shows "select_loop dev s xs =
           (None, s\<lparr>selectionMap :=
              foldl (\<lambda>m x. if kf x \<in> fst ` set m then m else m @ [(kf x, x)])
                (selectionMap s) xs\<rparr>)"
  using assms
proof (induction xs arbitrary: s)
  case Nil
  show ?case by simp
next
  case (Cons x xs)
  have k: "getTrackedByValue dev s x = Inr (kf x)"
    using Cons.prems by simp
  show ?case
  proof (cases "map_has (selectionMap s) (kf x)")
    case True
    have rest: "\<forall>y \<in> set xs. getTrackedByValue dev s y = Inr (kf y)"
      using Cons.prems by simp
    have "isSelected dev s x = Inr True"
      using k True by (simp add: isSelected_def)
    with Cons.IH [OF rest] True show ?thesis
      by (simp add: map_has_def)
  next
    case False
    have rest: "\<forall>y \<in> set xs. getTrackedByValue dev (markSelected s (kf x) x) y = Inr (kf y)"
      using Cons.prems by simp
    have "isSelected dev s x = Inr False"
      using k False by (simp add: isSelected_def)
    with Cons.IH [OF rest] k False show ?thesis
      by (simp add: map_has_def markSelected_def map_set_fresh [OF False])
  qed
qed

lemma filter_absent_key:
  "k \<notin> fst ` set m \<Longrightarrow>
   filter (\<lambda>p. fst p \<notin> insert k K) m = filter (\<lambda>p. fst p \<notin> K) m"
  by (rule filter_cong) auto

lemma deselect_loop_filter:
  assumes "\<forall>x \<in> set xs. getTrackedByValue dev s x = Inr (kf x)"
  shows "deselect_loop dev s xs =
           (None, s\<lparr>selectionMap := filter (\<lambda>p. fst p \<notin> kf ` set xs) (selectionMap s)\<rparr>)"
  using assms
proof (induction xs arbitrary: s)
  case Nil
  show ?case by simp
next
  case (Cons x xs)
  have k: "getTrackedByValue dev s x = Inr (kf x)"
    using Cons.prems by simp
  show ?case
  proof (cases "map_has (selectionMap s) (kf x)")
    case False
    have rest: "\<forall>y \<in> set xs. getTrackedByValue dev s y = Inr (kf y)"
      using Cons.prems by simp
    have "isSelected dev s x = Inr False"
      using k False by (simp add: isSelected_def)
    moreover have "kf x \<notin> fst ` set (selectionMap s)"
      using False by (simp add: map_has_def)
    then have "filter (\<lambda>p. fst p \<notin> insert (kf x) (kf ` set xs)) (selectionMap s) =
               filter (\<lambda>p. fst p \<notin> kf ` set xs) (selectionMap s)"
      by (rule filter_absent_key)
    then have "filter (\<lambda>p. fst p \<notin> kf ` set (x # xs)) (selectionMap s) =
               filter (\<lambda>p. fst p \<notin> kf ` set xs) (selectionMap s)"
      by simp
    ultimately show ?thesis
      using Cons.IH [OF rest] by simp
  next
    case True
    have rest: "\<forall>y \<in> set xs. getTrackedByValue dev (markDeselected s (kf x)) y = Inr (kf y)"
      using Cons.prems by simp
    have sel: "isSelected dev s x = Inr True"
      using k True by (simp add: isSelected_def)
    have "filter (\<lambda>p. fst p \<notin> kf ` set xs) (map_delete (kf x) (selectionMap s)) =
          filter (\<lambda>p. fst p \<notin> insert (kf x) (kf ` set xs)) (selectionMap s)"
      by (auto simp: map_delete_def intro: filter_cong)
    with Cons.IH [OF rest] k sel show ?thesis
      by (simp add: markDeselected_def)
  qed
qed

lemma foldl_fresh_append:
  "distinct (map kf xs) \<Longrightarrow> kf ` set xs \<inter> fst ` set m = {} \<Longrightarrow>
   foldl (\<lambda>m x. if kf x \<in> fst ` set m then m else m @ [(kf x, x)]) m xs =
     m @ map (\<lambda>x. (kf x, x)) xs"
proof (induction xs arbitrary: m)
  case Nil
  show ?case by simp
next
  case (Cons x xs)
  have a: "kf x \<notin> fst ` set m" using Cons.prems by auto
  have d: "distinct (map kf xs)" using Cons.prems by simp
  have i: "kf ` set xs \<inter> fst ` set (m @ [(kf x, x)]) = {}"
    using Cons.prems by auto
  show ?case
    using Cons.IH [OF d i] a by simp
qed

lemma select_exact:
  assumes "\<not> (\<not> multiple s \<and> length xs > 1 \<and> dev)"
    and "\<forall>x \<in> set xs. getTrackedByValue dev s x = Inr (kf x)"
  shows "select dev s xs =
     (None, s\<lparr>selectionMap :=
               foldl (\<lambda>m x. if kf x \<in> fst ` set m then m else m @ [(kf x, x)])
                 (if multiple s then selectionMap s else []) xs,
             changed := changed s @
               [\<lparr>before = map snd (selectionMap s),
                 after = map snd
                   (foldl (\<lambda>m x. if kf x \<in> fst ` set m then m else m @ [(kf x, x)])
                      (if multiple s then selectionMap s else []) xs)\<rparr>]\<rparr>)"
proof (cases "multiple s")
  case True
  show ?thesis
    using True select_loop_foldl [OF assms(2)]
    by (simp add: select_def Let_def getCurrentSelection_def map_values_def)
next
  case False
  have "\<forall>x \<in> set xs. getTrackedByValue dev (s\<lparr>selectionMap := []\<rparr>) x = Inr (kf x)"
    using assms(2) by simp
  from select_loop_foldl [OF this] False assms(1) show ?thesis
    by (simp add: select_def Let_def getCurrentSelection_def map_values_def)
qed

lemma deselect_exact:
  assumes "\<not> (\<not> multiple s \<and> length xs > 1 \<and> dev)"
    and "\<forall>x \<in> set xs. getTrackedByValue dev s x = Inr (kf x)"
  shows "deselect dev s xs =
     (None, s\<lparr>selectionMap := filter (\<lambda>p. fst p \<notin> kf ` set xs) (selectionMap s),
             changed := changed s @
               [\<lparr>before = map snd (selectionMap s),
                 after = map snd (filter (\<lambda>p. fst p \<notin> kf ` set xs) (selectionMap s))\<rparr>]\<rparr>)"
  using assms(1) deselect_loop_filter [OF assms(2)]
  by (simp add: deselect_def Let_def getCurrentSelection_def map_values_def)

subsection \<open>Single-selection mode holds at most one entry\<close>

text \<open>
  Claim C1, as the specification states it: for every \<open>SelectionSet\<close> constructed with
  \<open>multiple = false\<close>, after any sequence of \<open>select\<close> and \<open>deselect\<close> calls the map
  holds at most one entry. This fails: the check on the number of entries is made only
  when \<open>isDevMode()\<close> holds, so with the flag off \<open>select(1, 2)\<close> on a new
  single-selection object inserts both entries.
\<close>

theorem single_mode_two_entries_counterexample:
  "\<not> length (selectionMap (run single_set
        [(False, Select [\<lparr>val = 1, index = None\<rparr>, \<lparr>val = 2, index = None\<rparr>])])) \<le> 1"
  by (simp add: single_set_def new_SelectionSet_def run_def select_def Let_def isSelected_def
      getTrackedByValue_def markSelected_def map_has_def getCurrentSelection_def)

text \<open>
  Claim C1, amended: for every \<open>SelectionSet\<close> constructed with \<open>multiple = false\<close>, after
  any sequence of \<open>select\<close> and \<open>deselect\<close> calls in which every \<open>select\<close> is made with
  the diagnostic flag on or with at most one entry, the map holds at most one entry.
  Calls that throw are part of the sequence.
\<close>

theorem single_mode_at_most_one:
  "list_all within_contract cs \<Longrightarrow>
   length (selectionMap (run (new_SelectionSet False f) cs)) \<le> 1"
  by (rule run_single) (simp_all add: new_SelectionSet_def)

theorem single_mode_at_most_one_witness:
  "list_all within_contract
     [(True, Select [\<lparr>val = 1, index = None\<rparr>, \<lparr>val = 2, index = None\<rparr>]),
      (False, Select [\<lparr>val = (3::nat), index = None\<rparr>]),
      (False, Deselect [\<lparr>val = 3, index = None\<rparr>, \<lparr>val = 4, index = None\<rparr>])] \<and>
   length (selectionMap (run (new_SelectionSet False (Some (\<lambda>i v. v)))
     [(True, Select [\<lparr>val = 1, index = None\<rparr>, \<lparr>val = 2, index = None\<rparr>]),
      (False, Select [\<lparr>val = (3::nat), index = None\<rparr>]),
      (False, Deselect [\<lparr>val = 3, index = None\<rparr>, \<lparr>val = 4, index = None\<rparr>])])) \<le> 1"
  using single_mode_at_most_one
    [of "[(True, Select [\<lparr>val = 1, index = None\<rparr>, \<lparr>val = 2, index = None\<rparr>]),
          (False, Select [\<lparr>val = (3::nat), index = None\<rparr>]),
          (False, Deselect [\<lparr>val = 3, index = None\<rparr>, \<lparr>val = 4, index = None\<rparr>])]"
        "Some (\<lambda>i v. v)"]
  by simp

subsection \<open>One event per completed call\<close>

text \<open>
  Claim C2, as the specification states it: every call to \<open>select\<close> and every call to
  \<open>deselect\<close> emits exactly one event. This fails for a call that throws: with the
  diagnostic flag on, \<open>select(1, 2)\<close> on a single-selection object throws before
  \<open>changed.next\<close> is reached, and the stream has received nothing.
\<close>

theorem throwing_call_emits_nothing_counterexample:
  "fst (select True single_set [\<lparr>val = 1, index = None\<rparr>, \<lparr>val = 2, index = None\<rparr>])
     = Some NotMultiple \<and>
   changed (snd (select True single_set [\<lparr>val = 1, index = None\<rparr>, \<lparr>val = 2, index = None\<rparr>]))
     = changed single_set"
  by (simp add: single_set_def new_SelectionSet_def select_def)

text \<open>
  Claim C2, amended: every call to \<open>select\<close> and every call to \<open>deselect\<close> that returns
  without throwing emits exactly one event on the \<open>changed\<close> stream, whose \<open>before\<close> is
  the selection at the entry of the call and whose \<open>after\<close> is the selection when the
  call returns, also when the call changes nothing.
\<close>

theorem completed_call_emits_one_event:
  "(fst (select dev s xs) = None \<longrightarrow>
      changed (snd (select dev s xs)) = changed s @
        [\<lparr>before = getCurrentSelection s,
          after = getCurrentSelection (snd (select dev s xs))\<rparr>]) \<and>
   (fst (deselect dev s xs) = None \<longrightarrow>
      changed (snd (deselect dev s xs)) = changed s @
        [\<lparr>before = getCurrentSelection s,
          after = getCurrentSelection (snd (deselect dev s xs))\<rparr>])"
  by (simp add: select_changed deselect_changed)

theorem completed_call_emits_one_event_witness:
  "fst (select False (snd (select False single_set [\<lparr>val = 1, index = None\<rparr>]))
         [\<lparr>val = 1, index = None\<rparr>]) = None \<and>
   fst (deselect False (snd (select False single_set [\<lparr>val = 1, index = None\<rparr>]))
         [\<lparr>val = 1, index = None\<rparr>]) = None \<and>
   changed (snd (select False (snd (select False single_set [\<lparr>val = 1, index = None\<rparr>]))
         [\<lparr>val = 1, index = None\<rparr>])) =
     [\<lparr>before = [], after = [\<lparr>val = 1, index = None\<rparr>]\<rparr>,
      \<lparr>before = [\<lparr>val = 1, index = None\<rparr>], after = [\<lparr>val = 1, index = None\<rparr>]\<rparr>] \<and>
   changed (snd (deselect False (snd (select False single_set [\<lparr>val = 1, index = None\<rparr>]))
         [\<lparr>val = 1, index = None\<rparr>])) =
     [\<lparr>before = [], after = [\<lparr>val = 1, index = None\<rparr>]\<rparr>,
      \<lparr>before = [\<lparr>val = 1, index = None\<rparr>], after = []\<rparr>]"
  using completed_call_emits_one_event
    [of False "snd (select False single_set [\<lparr>val = 1, index = None\<rparr>])"
        "[\<lparr>val = 1, index = None\<rparr>]"]
  by (simp add: single_set_def new_SelectionSet_def select_def deselect_def Let_def
      isSelected_def getTrackedByValue_def markSelected_def markDeselected_def map_has_def
      map_delete_def getCurrentSelection_def map_values_def)

subsection \<open>Replacement in single-selection mode\<close>

text \<open>
  Claim C3: with \<open>multiple = false\<close>, for any two entries \<open>a\<close> and \<open>b\<close> whose derived
  keys differ, after \<open>select(a)\<close> and then \<open>select(b)\<close> both calls have returned,
  \<open>isSelected(a)\<close> is false, \<open>isSelected(b)\<close> is true and the map holds exactly one
  entry. The object may start in any state.
\<close>

theorem single_mode_replacement:
  assumes "\<not> multiple s"
    and "getTrackedByValue dev s a = Inr ka"
    and "getTrackedByValue dev s b = Inr kb"
    and "ka \<noteq> kb"
  shows "fst (select dev s [a]) = None \<and>
         fst (select dev (snd (select dev s [a])) [b]) = None \<and>
         isSelected dev (snd (select dev (snd (select dev s [a])) [b])) a = Inr False \<and>
         isSelected dev (snd (select dev (snd (select dev s [a])) [b])) b = Inr True \<and>
         length (selectionMap (snd (select dev (snd (select dev s [a])) [b]))) = 1"
  using assms
  by (simp add: select_def Let_def isSelected_def markSelected_def map_has_def)

theorem single_mode_replacement_witness:
  "\<not> multiple single_set \<and>
   getTrackedByValue True single_set \<lparr>val = 1, index = None\<rparr> = Inr (ByValue 1) \<and>
   getTrackedByValue True single_set \<lparr>val = 2, index = None\<rparr> = Inr (ByValue 2) \<and>
   (ByValue 1 :: (nat, nat) key) \<noteq> ByValue 2 \<and>
   isSelected True (snd (select True (snd (select True single_set [\<lparr>val = 1, index = None\<rparr>]))
      [\<lparr>val = 2, index = None\<rparr>])) \<lparr>val = 1, index = None\<rparr> = Inr False \<and>
   isSelected True (snd (select True (snd (select True single_set [\<lparr>val = 1, index = None\<rparr>]))
      [\<lparr>val = 2, index = None\<rparr>])) \<lparr>val = 2, index = None\<rparr> = Inr True \<and>
   length (selectionMap (snd (select True (snd (select True single_set
      [\<lparr>val = 1, index = None\<rparr>])) [\<lparr>val = 2, index = None\<rparr>]))) = 1"
proof -
  have m: "\<not> multiple single_set"
    by (simp add: single_set_def new_SelectionSet_def)
  have a: "getTrackedByValue True single_set \<lparr>val = 1, index = None\<rparr> = Inr (ByValue 1)"
    by (simp add: single_set_def new_SelectionSet_def getTrackedByValue_def)
  have b: "getTrackedByValue True single_set \<lparr>val = 2, index = None\<rparr> = Inr (ByValue 2)"
    by (simp add: single_set_def new_SelectionSet_def getTrackedByValue_def)
  have d: "(ByValue 1 :: (nat, nat) key) \<noteq> ByValue 2"
    by simp
  show ?thesis
    using m a b d single_mode_replacement [OF m a b d] by simp
qed

subsection \<open>The check on the number of entries\<close>

text \<open>
  Claim C4: \<open>select\<close> or \<open>deselect\<close> with more than one entry while \<open>multiple = false\<close>
  raises the error "not multiple selection" exactly when the diagnostic flag is on. With
  the flag off the same call raises nothing and does to all the supplied entries what it
  does to one. \<open>select\<close> empties the map and then inserts, in the order of the call, every
  supplied entry whose key has not occurred earlier in the call (all of them when their
  keys are distinct); \<open>deselect\<close> removes exactly the entries of the map whose key is the
  key of a supplied entry and keeps the others in their order. Each emits its one event
  with these snapshots. Afterwards every supplied entry is selected, respectively not
  selected.
\<close>

theorem not_multiple_raised_iff_diagnostic:
  assumes "\<not> multiple s" and "length xs > 1"
  shows "(fst (select dev s xs) = Some NotMultiple \<longleftrightarrow> dev) \<and>
         (fst (deselect dev s xs) = Some NotMultiple \<longleftrightarrow> dev) \<and>
         fst (select False s xs) = None \<and>
         fst (deselect False s xs) = None \<and>
         selectionMap (snd (select False s xs)) =
           selectionMap (snd (select_loop False (s\<lparr>selectionMap := []\<rparr>) xs)) \<and>
         selectionMap (snd (deselect False s xs)) =
           selectionMap (snd (deselect_loop False s xs)) \<and>
         (\<forall>x \<in> set xs. isSelected False (snd (select False s xs)) x = Inr True) \<and>
         (\<forall>x \<in> set xs. isSelected False (snd (deselect False s xs)) x = Inr False) \<and>
         (\<forall>x \<in> set xs. getTrackedByValue False s x = Inr (keyOf s x)) \<and>
         select False s xs =
           (None, s\<lparr>selectionMap :=
                     foldl (\<lambda>m x. if keyOf s x \<in> fst ` set m then m else m @ [(keyOf s x, x)])
                       [] xs,
                   changed := changed s @
                     [\<lparr>before = map snd (selectionMap s),
                       after = map snd
                         (foldl (\<lambda>m x. if keyOf s x \<in> fst ` set m then m
                                         else m @ [(keyOf s x, x)]) [] xs)\<rparr>]\<rparr>) \<and>
         (distinct (map (keyOf s) xs) \<longrightarrow>
            selectionMap (snd (select False s xs)) = map (\<lambda>x. (keyOf s x, x)) xs) \<and>
         deselect False s xs =
           (None, s\<lparr>selectionMap :=
                     filter (\<lambda>p. fst p \<notin> keyOf s ` set xs) (selectionMap s),
                   changed := changed s @
                     [\<lparr>before = map snd (selectionMap s),
                       after = map snd
                         (filter (\<lambda>p. fst p \<notin> keyOf s ` set xs) (selectionMap s))\<rparr>]\<rparr>)"
proof -
  have e1: "fst (select dev s xs) = Some NotMultiple \<longleftrightarrow> dev"
  proof (cases dev)
    case True
    with assms show ?thesis by (simp add: select_def)
  next
    case False
    then show ?thesis by (simp add: select_prod)
  qed
  have e2: "fst (deselect dev s xs) = Some NotMultiple \<longleftrightarrow> dev"
  proof (cases dev)
    case True
    with assms show ?thesis by (simp add: deselect_def)
  next
    case False
    then show ?thesis by (simp add: deselect_prod)
  qed
  have n1: "fst (select False s xs) = None" by (simp add: select_prod)
  have n2: "fst (deselect False s xs) = None" by (simp add: deselect_prod)
  have m1: "selectionMap (snd (select False s xs)) =
           selectionMap (snd (select_loop False (s\<lparr>selectionMap := []\<rparr>) xs))"
    using assms(1) by (simp add: select_map)
  have m2: "selectionMap (snd (deselect False s xs)) =
           selectionMap (snd (deselect_loop False s xs))"
    by (simp add: deselect_map)
  have a1: "\<forall>x \<in> set xs. isSelected False (snd (select False s xs)) x = Inr True"
  proof
    fix x
    assume "x \<in> set xs"
    from select_loop_selects [OF this, of "s\<lparr>selectionMap := []\<rparr>"] assms(1)
    show "isSelected False (snd (select False s xs)) x = Inr True"
      by (simp add: select_prod)
  qed
  have a2: "\<forall>x \<in> set xs. isSelected False (snd (deselect False s xs)) x = Inr False"
  proof
    fix x
    assume "x \<in> set xs"
    from deselect_loop_deselects [OF this, of s]
    show "isSelected False (snd (deselect False s xs)) x = Inr False"
      by (simp add: deselect_prod)
  qed
  have k: "\<forall>x \<in> set xs. getTrackedByValue False s x = Inr (keyOf s x)"
    by (simp add: getTrackedByValue_off)
  have x1: "select False s xs =
           (None, s\<lparr>selectionMap :=
                     foldl (\<lambda>m x. if keyOf s x \<in> fst ` set m then m else m @ [(keyOf s x, x)])
                       [] xs,
                   changed := changed s @
                     [\<lparr>before = map snd (selectionMap s),
                       after = map snd
                         (foldl (\<lambda>m x. if keyOf s x \<in> fst ` set m then m
                                         else m @ [(keyOf s x, x)]) [] xs)\<rparr>]\<rparr>)"
    using select_exact [OF _ k] assms(1) by simp
  have x2: "deselect False s xs =
           (None, s\<lparr>selectionMap :=
                     filter (\<lambda>p. fst p \<notin> keyOf s ` set xs) (selectionMap s),
                   changed := changed s @
                     [\<lparr>before = map snd (selectionMap s),
                       after = map snd
                         (filter (\<lambda>p. fst p \<notin> keyOf s ` set xs) (selectionMap s))\<rparr>]\<rparr>)"
    using deselect_exact [OF _ k] by simp
  have d: "selectionMap (snd (select False s xs)) = map (\<lambda>x. (keyOf s x, x)) xs"
    if "distinct (map (keyOf s) xs)"
    using foldl_fresh_append [OF that, of "[]"] by (simp add: x1)
  from e1 e2 n1 n2 m1 m2 a1 a2 k x1 x2 d show ?thesis by blast
qed

theorem not_multiple_raised_iff_diagnostic_witness:
  "\<not> multiple (snd (select False single_set
       [\<lparr>val = 2, index = None\<rparr>, \<lparr>val = 3, index = None\<rparr>, \<lparr>val = 4, index = None\<rparr>])) \<and>
   length [\<lparr>val = (2::nat), index = None\<rparr>, \<lparr>val = 3, index = None\<rparr>] > 1 \<and>
   distinct (map (keyOf (snd (select False single_set
       [\<lparr>val = 2, index = None\<rparr>, \<lparr>val = 3, index = None\<rparr>, \<lparr>val = 4, index = None\<rparr>])))
     [\<lparr>val = 2, index = None\<rparr>, \<lparr>val = 3, index = None\<rparr>]) \<and>
   fst (select True (snd (select False single_set
       [\<lparr>val = 2, index = None\<rparr>, \<lparr>val = 3, index = None\<rparr>, \<lparr>val = 4, index = None\<rparr>]))
     [\<lparr>val = 2, index = None\<rparr>, \<lparr>val = 3, index = None\<rparr>]) = Some NotMultiple \<and>
   fst (deselect True (snd (select False single_set
       [\<lparr>val = 2, index = None\<rparr>, \<lparr>val = 3, index = None\<rparr>, \<lparr>val = 4, index = None\<rparr>]))
     [\<lparr>val = 2, index = None\<rparr>, \<lparr>val = 3, index = None\<rparr>]) = Some NotMultiple \<and>
   select False (snd (select False single_set
       [\<lparr>val = 2, index = None\<rparr>, \<lparr>val = 3, index = None\<rparr>, \<lparr>val = 4, index = None\<rparr>]))
     [\<lparr>val = 2, index = None\<rparr>, \<lparr>val = 3, index = None\<rparr>] =
     (None,
      \<lparr>multiple = False, trackByFn = None,
       selectionMap = [(ByValue 2, \<lparr>val = 2, index = None\<rparr>), (ByValue 3, \<lparr>val = 3, index = None\<rparr>)],
       changed =
         [\<lparr>before = [],
           after = [\<lparr>val = 2, index = None\<rparr>, \<lparr>val = 3, index = None\<rparr>, \<lparr>val = 4, index = None\<rparr>]\<rparr>,
          \<lparr>before = [\<lparr>val = 2, index = None\<rparr>, \<lparr>val = 3, index = None\<rparr>, \<lparr>val = 4, index = None\<rparr>],
           after = [\<lparr>val = 2, index = None\<rparr>, \<lparr>val = 3, index = None\<rparr>]\<rparr>]\<rparr>) \<and>
   deselect False (snd (select False single_set
       [\<lparr>val = 2, index = None\<rparr>, \<lparr>val = 3, index = None\<rparr>, \<lparr>val = 4, index = None\<rparr>]))
     [\<lparr>val = 2, index = None\<rparr>, \<lparr>val = 3, index = None\<rparr>] =
     (None,
      \<lparr>multiple = False, trackByFn = None,
       selectionMap = [(ByValue 4, \<lparr>val = 4, index = None\<rparr>)],
       changed =
         [\<lparr>before = [],
           after = [\<lparr>val = 2, index = None\<rparr>, \<lparr>val = 3, index = None\<rparr>, \<lparr>val = 4, index = None\<rparr>]\<rparr>,
          \<lparr>before = [\<lparr>val = 2, index = None\<rparr>, \<lparr>val = 3, index = None\<rparr>, \<lparr>val = 4, index = None\<rparr>],
           after = [\<lparr>val = 4, index = None\<rparr>]\<rparr>]\<rparr>)"
proof -
  have s: "snd (select False single_set
       [\<lparr>val = 2, index = None\<rparr>, \<lparr>val = 3, index = None\<rparr>, \<lparr>val = 4, index = None\<rparr>]) =
     \<lparr>multiple = False, trackByFn = None,
      selectionMap = [(ByValue 2, \<lparr>val = 2, index = None\<rparr>), (ByValue 3, \<lparr>val = 3, index = None\<rparr>),
                      (ByValue 4, \<lparr>val = 4, index = None\<rparr>)],
      changed = [\<lparr>before = [],
         after = [\<lparr>val = 2, index = None\<rparr>, \<lparr>val = 3, index = None\<rparr>, \<lparr>val = 4, index = None\<rparr>]\<rparr>]\<rparr>"
    by (simp add: single_set_def new_SelectionSet_def select_def Let_def isSelected_def
        getTrackedByValue_def markSelected_def map_has_def getCurrentSelection_def map_values_def)
  show ?thesis
    using not_multiple_raised_iff_diagnostic
      [of "snd (select False single_set
             [\<lparr>val = 2, index = None\<rparr>, \<lparr>val = 3, index = None\<rparr>, \<lparr>val = 4, index = None\<rparr>])"
          "[\<lparr>val = 2, index = None\<rparr>, \<lparr>val = 3, index = None\<rparr>]" True]
    by (simp add: s keyOf_def)
qed

subsection \<open>The check on the index\<close>

text \<open>
  Claim C5: when a \<open>trackByFn\<close> is configured, deriving the key of an entry raises the
  error "index required" exactly when the index of the entry is absent and the diagnostic
  flag is on, and so do \<open>isSelected\<close>, \<open>select\<close> and \<open>deselect\<close> called with that entry.
  With the flag off and the index absent, the key is what the \<open>trackByFn\<close> returns for
  the absent index and the value of the entry.
\<close>

theorem index_required_iff_absent_and_diagnostic:
  assumes "trackByFn s = Some f"
  shows "(getTrackedByValue dev s x = Inl IndexRequired \<longleftrightarrow> index x = None \<and> dev) \<and>
         (isSelected dev s x = Inl IndexRequired \<longleftrightarrow> index x = None \<and> dev) \<and>
         (fst (select dev s [x]) = Some IndexRequired \<longleftrightarrow> index x = None \<and> dev) \<and>
         (fst (deselect dev s [x]) = Some IndexRequired \<longleftrightarrow> index x = None \<and> dev) \<and>
         getTrackedByValue False s (x\<lparr>index := None\<rparr>) = Inr (ByTrack (f None (val x)))"
proof -
  have g: "getTrackedByValue dev s x =
             (if index x = None \<and> dev then Inl IndexRequired
              else Inr (ByTrack (f (index x) (val x))))"
    using assms by (simp add: getTrackedByValue_def)
  have c1: "getTrackedByValue dev s x = Inl IndexRequired \<longleftrightarrow> index x = None \<and> dev"
    by (simp add: g)
  have c2: "isSelected dev s x = Inl IndexRequired \<longleftrightarrow> index x = None \<and> dev"
    by (simp add: isSelected_def g)
  have c3: "fst (select dev s [x]) = Some IndexRequired \<longleftrightarrow> index x = None \<and> dev"
  proof (cases "index x = None \<and> dev")
    case True
    with g have "getTrackedByValue dev s x = Inl IndexRequired" by simp
    with True show ?thesis by (simp add: select_one_raises)
  next
    case False
    with g have "getTrackedByValue dev s x = Inr (ByTrack (f (index x) (val x)))" by simp
    with False show ?thesis by (simp add: select_one_returns)
  qed
  have c4: "fst (deselect dev s [x]) = Some IndexRequired \<longleftrightarrow> index x = None \<and> dev"
  proof (cases "index x = None \<and> dev")
    case True
    with g have "getTrackedByValue dev s x = Inl IndexRequired" by simp
    with True show ?thesis by (simp add: deselect_one_raises)
  next
    case False
    with g have "getTrackedByValue dev s x = Inr (ByTrack (f (index x) (val x)))" by simp
    with False show ?thesis by (simp add: deselect_one_returns)
  qed
  have c5: "getTrackedByValue False s (x\<lparr>index := None\<rparr>) = Inr (ByTrack (f None (val x)))"
    using assms by (simp add: getTrackedByValue_def)
  from c1 c2 c3 c4 c5 show ?thesis by blast
qed

theorem index_required_iff_absent_and_diagnostic_witness:
  "trackByFn (new_SelectionSet False (Some track_by_id)) = Some track_by_id \<and>
   getTrackedByValue True (new_SelectionSet False (Some track_by_id))
     \<lparr>val = (7, 0), index = None\<rparr> = Inl IndexRequired \<and>
   fst (select True (new_SelectionSet False (Some track_by_id))
     [\<lparr>val = (7, 0), index = None\<rparr>]) = Some IndexRequired \<and>
   getTrackedByValue False (new_SelectionSet False (Some track_by_id))
     \<lparr>val = (7, 0), index = None\<rparr> = Inr (ByTrack 7)"
proof -
  have t: "trackByFn (new_SelectionSet False (Some track_by_id)) = Some track_by_id"
    by (simp add: new_SelectionSet_def)
  show ?thesis
    using t index_required_iff_absent_and_diagnostic
      [OF t, of True "\<lparr>val = (7, 0), index = None\<rparr>"]
    by (simp add: track_by_id_def)
qed

subsection \<open>Selecting the same entry again\<close>

text \<open>
  Claim C6, as the specification states it: for every entry \<open>a\<close>, the second of two calls
  \<open>select(a)\<close> still emits an event. This fails for an entry whose key cannot be derived:
  with a \<open>trackByFn\<close> configured and the diagnostic flag on, an entry without index makes
  both calls throw "index required", and the stream has received nothing.
\<close>

theorem reselect_raises_counterexample:
  "fst (select True
         (snd (select True (new_SelectionSet True (Some track_by_id))
                 [\<lparr>val = (7, 0), index = None\<rparr>]))
         [\<lparr>val = (7, 0), index = None\<rparr>]) = Some IndexRequired \<and>
   changed (snd (select True
         (snd (select True (new_SelectionSet True (Some track_by_id))
                 [\<lparr>val = (7, 0), index = None\<rparr>]))
         [\<lparr>val = (7, 0), index = None\<rparr>])) = []"
  by (simp add: new_SelectionSet_def select_def Let_def isSelected_def getTrackedByValue_def)

text \<open>
  Claim C6, amended: for every entry \<open>a\<close> whose key is derived without an error, both
  calls \<open>select(a)\<close> return, the second leaves the map as the first left it (the same
  entries in the same order), and the second emits an event whose \<open>before\<close> and \<open>after\<close>
  are both the selection the first call left.
\<close>

theorem reselect_idempotent:
  assumes "getTrackedByValue dev s a = Inr k"
  shows "fst (select dev s [a]) = None \<and>
         fst (select dev (snd (select dev s [a])) [a]) = None \<and>
         selectionMap (snd (select dev (snd (select dev s [a])) [a])) =
           selectionMap (snd (select dev s [a])) \<and>
         getCurrentSelection (snd (select dev (snd (select dev s [a])) [a])) =
           getCurrentSelection (snd (select dev s [a])) \<and>
         changed (snd (select dev (snd (select dev s [a])) [a])) =
           changed (snd (select dev s [a])) @
             [\<lparr>before = getCurrentSelection (snd (select dev s [a])),
               after = getCurrentSelection (snd (select dev s [a]))\<rparr>]"
  using assms
  by (simp add: select_def Let_def isSelected_def markSelected_def map_has_map_set
      getCurrentSelection_def split: bool.splits)

theorem reselect_idempotent_witness:
  "getTrackedByValue True (new_SelectionSet True (Some track_by_id))
     \<lparr>val = (7, 0), index = Some 3\<rparr> = Inr (ByTrack 7) \<and>
   selectionMap (snd (select True
         (snd (select True (new_SelectionSet True (Some track_by_id))
                 [\<lparr>val = (7, 0), index = Some 3\<rparr>]))
         [\<lparr>val = (7, 0), index = Some 3\<rparr>])) = [(ByTrack 7, \<lparr>val = (7, 0), index = Some 3\<rparr>)] \<and>
   changed (snd (select True
         (snd (select True (new_SelectionSet True (Some track_by_id))
                 [\<lparr>val = (7, 0), index = Some 3\<rparr>]))
         [\<lparr>val = (7, 0), index = Some 3\<rparr>])) =
     [\<lparr>before = [], after = [\<lparr>val = (7, 0), index = Some 3\<rparr>]\<rparr>,
      \<lparr>before = [\<lparr>val = (7, 0), index = Some 3\<rparr>],
        after = [\<lparr>val = (7, 0), index = Some 3\<rparr>]\<rparr>]"
proof -
  have g: "getTrackedByValue True (new_SelectionSet True (Some track_by_id))
     \<lparr>val = (7, 0), index = Some 3\<rparr> = Inr (ByTrack 7)"
    by (simp add: new_SelectionSet_def getTrackedByValue_def track_by_id_def)
  show ?thesis
    using g reselect_idempotent [OF g]
    by (simp add: new_SelectionSet_def select_def Let_def isSelected_def markSelected_def
        map_has_def getCurrentSelection_def map_values_def getTrackedByValue_def track_by_id_def)
qed

subsection \<open>Enumeration in insertion order\<close>

text \<open>
  Claim C7: with \<open>multiple = true\<close>, on a new object, selecting \<open>a\<close>, then \<open>b\<close>, then
  \<open>c\<close> (three entries with distinct keys) ends with an event whose \<open>after\<close> is
  \<open>[a, b, c]\<close>, and deselecting \<open>b\<close> next emits an event whose \<open>after\<close> is \<open>[a, c]\<close>;
  the theorem gives the whole object after the three and after the four calls. In
  general, from any state in multiple-selection mode and for any entries whose keys are
  derived without an error: \<open>select\<close> leaves the entries of the map where they are and
  appends the new ones in the order of the call, so that entries with fresh, distinct
  keys extend the enumeration by themselves in that order; \<open>deselect\<close> filters the map,
  so that the remaining entries keep their relative order. The snapshots of the event
  are the enumerations before and after.
\<close>

theorem insertion_order_preserved:
  "(getTrackedByValue dev (new_SelectionSet True f) a = Inr ka \<and>
    getTrackedByValue dev (new_SelectionSet True f) b = Inr kb \<and>
    getTrackedByValue dev (new_SelectionSet True f) c = Inr kc \<and>
    ka \<noteq> kb \<and> ka \<noteq> kc \<and> kb \<noteq> kc \<longrightarrow>
      run (new_SelectionSet True f) [(dev, Select [a]), (dev, Select [b]), (dev, Select [c])] =
        \<lparr>multiple = True, trackByFn = f,
         selectionMap = [(ka, a), (kb, b), (kc, c)],
         changed = [\<lparr>before = [], after = [a]\<rparr>,
                    \<lparr>before = [a], after = [a, b]\<rparr>,
                    \<lparr>before = [a, b], after = [a, b, c]\<rparr>]\<rparr> \<and>
      run (new_SelectionSet True f)
          [(dev, Select [a]), (dev, Select [b]), (dev, Select [c]), (dev, Deselect [b])] =
        \<lparr>multiple = True, trackByFn = f,
         selectionMap = [(ka, a), (kc, c)],
         changed = [\<lparr>before = [], after = [a]\<rparr>,
                    \<lparr>before = [a], after = [a, b]\<rparr>,
                    \<lparr>before = [a, b], after = [a, b, c]\<rparr>,
                    \<lparr>before = [a, b, c], after = [a, c]\<rparr>]\<rparr>) \<and>
   (multiple s \<and> (\<forall>x \<in> set xs. getTrackedByValue dev s x = Inr (keyOf s x)) \<longrightarrow>
      select dev s xs =
        (None, s\<lparr>selectionMap :=
                  foldl (\<lambda>m x. if keyOf s x \<in> fst ` set m then m else m @ [(keyOf s x, x)])
                    (selectionMap s) xs,
                changed := changed s @
                  [\<lparr>before = map snd (selectionMap s),
                    after = map snd
                      (foldl (\<lambda>m x. if keyOf s x \<in> fst ` set m then m
                                      else m @ [(keyOf s x, x)]) (selectionMap s) xs)\<rparr>]\<rparr>)) \<and>
   (multiple s \<and> (\<forall>x \<in> set xs. getTrackedByValue dev s x = Inr (keyOf s x)) \<and>
    distinct (map (keyOf s) xs) \<and> keyOf s ` set xs \<inter> fst ` set (selectionMap s) = {} \<longrightarrow>
      selectionMap (snd (select dev s xs)) = selectionMap s @ map (\<lambda>x. (keyOf s x, x)) xs \<and>
      getCurrentSelection (snd (select dev s xs)) = getCurrentSelection s @ xs) \<and>
   (multiple s \<and> (\<forall>y \<in> set ys. getTrackedByValue dev s y = Inr (keyOf s y)) \<longrightarrow>
      deselect dev s ys =
        (None, s\<lparr>selectionMap := filter (\<lambda>p. fst p \<notin> keyOf s ` set ys) (selectionMap s),
                changed := changed s @
                  [\<lparr>before = map snd (selectionMap s),
                    after = map snd
                      (filter (\<lambda>p. fst p \<notin> keyOf s ` set ys) (selectionMap s))\<rparr>]\<rparr>))"
proof -
  have scenario:
    "run (new_SelectionSet True f) [(dev, Select [a]), (dev, Select [b]), (dev, Select [c])] =
        \<lparr>multiple = True, trackByFn = f,
         selectionMap = [(ka, a), (kb, b), (kc, c)],
         changed = [\<lparr>before = [], after = [a]\<rparr>,
                    \<lparr>before = [a], after = [a, b]\<rparr>,
                    \<lparr>before = [a, b], after = [a, b, c]\<rparr>]\<rparr> \<and>
      run (new_SelectionSet True f)
          [(dev, Select [a]), (dev, Select [b]), (dev, Select [c]), (dev, Deselect [b])] =
        \<lparr>multiple = True, trackByFn = f,
         selectionMap = [(ka, a), (kc, c)],
         changed = [\<lparr>before = [], after = [a]\<rparr>,
                    \<lparr>before = [a], after = [a, b]\<rparr>,
                    \<lparr>before = [a, b], after = [a, b, c]\<rparr>,
                    \<lparr>before = [a, b, c], after = [a, c]\<rparr>]\<rparr>"
    if ga: "getTrackedByValue dev (new_SelectionSet True f) a = Inr ka"
      and gb: "getTrackedByValue dev (new_SelectionSet True f) b = Inr kb"
      and gc: "getTrackedByValue dev (new_SelectionSet True f) c = Inr kc"
      and ab: "ka \<noteq> kb" and ac: "ka \<noteq> kc" and bc: "kb \<noteq> kc"
  proof -
    let ?st = "\<lambda>m e. \<lparr>multiple = True, trackByFn = f, selectionMap = m, changed = e\<rparr>"
    let ?e1 = "[\<lparr>before = [], after = [a]\<rparr>]"
    let ?e2 = "[\<lparr>before = [], after = [a]\<rparr>, \<lparr>before = [a], after = [a, b]\<rparr>]"
    let ?e3 = "[\<lparr>before = [], after = [a]\<rparr>, \<lparr>before = [a], after = [a, b]\<rparr>,
                \<lparr>before = [a, b], after = [a, b, c]\<rparr>]"
    let ?e4 = "[\<lparr>before = [], after = [a]\<rparr>, \<lparr>before = [a], after = [a, b]\<rparr>,
                \<lparr>before = [a, b], after = [a, b, c]\<rparr>, \<lparr>before = [a, b, c], after = [a, c]\<rparr>]"
    have g: "getTrackedByValue dev (?st m e) x = getTrackedByValue dev (new_SelectionSet True f) x"
      for m e x
      by (simp add: getTrackedByValue_def new_SelectionSet_def)
    have sel: "select dev (?st m e) [x] =
        (None, ?st (m @ [(k, x)]) (e @ [\<lparr>before = map snd m, after = map snd m @ [x]\<rparr>]))"
      if "getTrackedByValue dev (new_SelectionSet True f) x = Inr k" and "\<not> map_has m k"
      for m e x k
      using that
      by (simp add: select_def Let_def isSelected_def g markSelected_def map_set_fresh
          getCurrentSelection_def map_values_def)
    have s1: "select dev (new_SelectionSet True f) [a] = (None, ?st [(ka, a)] ?e1)"
      using sel [of a ka "[]" "[]"] ga by (simp add: new_SelectionSet_def map_has_def)
    have s2: "select dev (?st [(ka, a)] ?e1) [b] = (None, ?st [(ka, a), (kb, b)] ?e2)"
      using sel [of b kb "[(ka, a)]" ?e1] gb ab by (simp add: map_has_def)
    have s3: "select dev (?st [(ka, a), (kb, b)] ?e2) [c] =
        (None, ?st [(ka, a), (kb, b), (kc, c)] ?e3)"
      using sel [of c kc "[(ka, a), (kb, b)]" ?e2] gc ac bc by (simp add: map_has_def)
    have s4: "deselect dev (?st [(ka, a), (kb, b), (kc, c)] ?e3) [b] =
        (None, ?st [(ka, a), (kc, c)] ?e4)"
      using gb ab bc
      by (simp add: deselect_def Let_def isSelected_def g markDeselected_def map_has_def
          map_delete_def getCurrentSelection_def map_values_def)
    show ?thesis
      by (simp add: run_def s1 s2 s3 s4)
  qed
  have ins: "select dev s xs =
        (None, s\<lparr>selectionMap :=
                  foldl (\<lambda>m x. if keyOf s x \<in> fst ` set m then m else m @ [(keyOf s x, x)])
                    (selectionMap s) xs,
                changed := changed s @
                  [\<lparr>before = map snd (selectionMap s),
                    after = map snd
                      (foldl (\<lambda>m x. if keyOf s x \<in> fst ` set m then m
                                      else m @ [(keyOf s x, x)]) (selectionMap s) xs)\<rparr>]\<rparr>)"
    if "multiple s" and "\<forall>x \<in> set xs. getTrackedByValue dev s x = Inr (keyOf s x)"
    using select_exact [OF _ that(2)] that(1) by simp
  have app: "selectionMap (snd (select dev s xs)) = selectionMap s @ map (\<lambda>x. (keyOf s x, x)) xs \<and>
      getCurrentSelection (snd (select dev s xs)) = getCurrentSelection s @ xs"
    if "multiple s" and "\<forall>x \<in> set xs. getTrackedByValue dev s x = Inr (keyOf s x)"
      and "distinct (map (keyOf s) xs)" and "keyOf s ` set xs \<inter> fst ` set (selectionMap s) = {}"
    using foldl_fresh_append [OF that(3,4)] ins [OF that(1,2)]
    by (simp add: getCurrentSelection_def map_values_def comp_def)
  have del: "deselect dev s ys =
        (None, s\<lparr>selectionMap := filter (\<lambda>p. fst p \<notin> keyOf s ` set ys) (selectionMap s),
                changed := changed s @
                  [\<lparr>before = map snd (selectionMap s),
                    after = map snd
                      (filter (\<lambda>p. fst p \<notin> keyOf s ` set ys) (selectionMap s))\<rparr>]\<rparr>)"
    if "multiple s" and "\<forall>y \<in> set ys. getTrackedByValue dev s y = Inr (keyOf s y)"
    using deselect_exact [OF _ that(2)] that(1) by simp
  from scenario ins app del show ?thesis by blast
qed

theorem insertion_order_preserved_witness:
  "getTrackedByValue False (new_SelectionSet True None) \<lparr>val = (2::nat), index = None\<rparr>
     = Inr (ByValue 2 :: (nat, nat) key) \<and>
   getTrackedByValue False (new_SelectionSet True None) \<lparr>val = (3::nat), index = None\<rparr>
     = Inr (ByValue 3 :: (nat, nat) key) \<and>
   getTrackedByValue False (new_SelectionSet True None) \<lparr>val = (4::nat), index = None\<rparr>
     = Inr (ByValue 4 :: (nat, nat) key) \<and>
   (ByValue 2 :: (nat, nat) key) \<noteq> ByValue 3 \<and>
   (ByValue 2 :: (nat, nat) key) \<noteq> ByValue 4 \<and>
   (ByValue 3 :: (nat, nat) key) \<noteq> ByValue 4 \<and>
   getCurrentSelection (run multiple_set
     [(False, Select [\<lparr>val = 2, index = None\<rparr>]), (False, Select [\<lparr>val = 3, index = None\<rparr>]),
      (False, Select [\<lparr>val = 4, index = None\<rparr>])]) =
     [\<lparr>val = 2, index = None\<rparr>, \<lparr>val = 3, index = None\<rparr>, \<lparr>val = 4, index = None\<rparr>] \<and>
   getCurrentSelection (run multiple_set
     [(False, Select [\<lparr>val = 2, index = None\<rparr>]), (False, Select [\<lparr>val = 3, index = None\<rparr>]),
      (False, Select [\<lparr>val = 4, index = None\<rparr>]), (False, Deselect [\<lparr>val = 3, index = None\<rparr>])]) =
     [\<lparr>val = 2, index = None\<rparr>, \<lparr>val = 4, index = None\<rparr>] \<and>
   multiple (snd (select False multiple_set
     [\<lparr>val = 2, index = None\<rparr>, \<lparr>val = 3, index = None\<rparr>, \<lparr>val = 4, index = None\<rparr>,
      \<lparr>val = 5, index = None\<rparr>])) \<and>
   getTrackedByValue False (snd (select False multiple_set
        [\<lparr>val = 2, index = None\<rparr>, \<lparr>val = 3, index = None\<rparr>, \<lparr>val = 4, index = None\<rparr>,
         \<lparr>val = 5, index = None\<rparr>]))
       \<lparr>val = 6, index = None\<rparr> =
     Inr (keyOf (snd (select False multiple_set
        [\<lparr>val = 2, index = None\<rparr>, \<lparr>val = 3, index = None\<rparr>, \<lparr>val = 4, index = None\<rparr>,
         \<lparr>val = 5, index = None\<rparr>]))
       \<lparr>val = 6, index = None\<rparr>) \<and>
   getTrackedByValue False (snd (select False multiple_set
        [\<lparr>val = 2, index = None\<rparr>, \<lparr>val = 3, index = None\<rparr>, \<lparr>val = 4, index = None\<rparr>,
         \<lparr>val = 5, index = None\<rparr>]))
       \<lparr>val = 7, index = None\<rparr> =
     Inr (keyOf (snd (select False multiple_set
        [\<lparr>val = 2, index = None\<rparr>, \<lparr>val = 3, index = None\<rparr>, \<lparr>val = 4, index = None\<rparr>,
         \<lparr>val = 5, index = None\<rparr>]))
       \<lparr>val = 7, index = None\<rparr>) \<and>
   getTrackedByValue False (snd (select False multiple_set
        [\<lparr>val = 2, index = None\<rparr>, \<lparr>val = 3, index = None\<rparr>, \<lparr>val = 4, index = None\<rparr>,
         \<lparr>val = 5, index = None\<rparr>]))
       \<lparr>val = 3, index = None\<rparr> =
     Inr (keyOf (snd (select False multiple_set
        [\<lparr>val = 2, index = None\<rparr>, \<lparr>val = 3, index = None\<rparr>, \<lparr>val = 4, index = None\<rparr>,
         \<lparr>val = 5, index = None\<rparr>]))
       \<lparr>val = 3, index = None\<rparr>) \<and>
   distinct (map (keyOf (snd (select False multiple_set
        [\<lparr>val = 2, index = None\<rparr>, \<lparr>val = 3, index = None\<rparr>, \<lparr>val = 4, index = None\<rparr>,
         \<lparr>val = 5, index = None\<rparr>])))
     [\<lparr>val = 6, index = None\<rparr>, \<lparr>val = 7, index = None\<rparr>]) \<and>
   keyOf (snd (select False multiple_set
        [\<lparr>val = 2, index = None\<rparr>, \<lparr>val = 3, index = None\<rparr>, \<lparr>val = 4, index = None\<rparr>,
         \<lparr>val = 5, index = None\<rparr>])) ` set [\<lparr>val = 6, index = None\<rparr>, \<lparr>val = 7, index = None\<rparr>]
     \<inter> fst ` set (selectionMap (snd (select False multiple_set
        [\<lparr>val = 2, index = None\<rparr>, \<lparr>val = 3, index = None\<rparr>, \<lparr>val = 4, index = None\<rparr>,
         \<lparr>val = 5, index = None\<rparr>]))) = {} \<and>
   getCurrentSelection (snd (select False (snd (select False multiple_set
        [\<lparr>val = 2, index = None\<rparr>, \<lparr>val = 3, index = None\<rparr>, \<lparr>val = 4, index = None\<rparr>,
         \<lparr>val = 5, index = None\<rparr>]))
      [\<lparr>val = 6, index = None\<rparr>, \<lparr>val = 7, index = None\<rparr>])) =
     [\<lparr>val = 2, index = None\<rparr>, \<lparr>val = 3, index = None\<rparr>, \<lparr>val = 4, index = None\<rparr>,
      \<lparr>val = 5, index = None\<rparr>, \<lparr>val = 6, index = None\<rparr>, \<lparr>val = 7, index = None\<rparr>] \<and>
   getCurrentSelection (snd (deselect False (snd (select False multiple_set
        [\<lparr>val = 2, index = None\<rparr>, \<lparr>val = 3, index = None\<rparr>, \<lparr>val = 4, index = None\<rparr>,
         \<lparr>val = 5, index = None\<rparr>]))
      [\<lparr>val = 3, index = None\<rparr>])) =
     [\<lparr>val = 2, index = None\<rparr>, \<lparr>val = 4, index = None\<rparr>, \<lparr>val = 5, index = None\<rparr>]"
proof -
  have s: "snd (select False multiple_set
        [\<lparr>val = 2, index = None\<rparr>, \<lparr>val = 3, index = None\<rparr>, \<lparr>val = 4, index = None\<rparr>,
         \<lparr>val = 5, index = None\<rparr>]) =
     \<lparr>multiple = True, trackByFn = None,
      selectionMap = [(ByValue 2, \<lparr>val = 2, index = None\<rparr>), (ByValue 3, \<lparr>val = 3, index = None\<rparr>),
                      (ByValue 4, \<lparr>val = 4, index = None\<rparr>), (ByValue 5, \<lparr>val = 5, index = None\<rparr>)],
      changed = [\<lparr>before = [],
         after = [\<lparr>val = 2, index = None\<rparr>, \<lparr>val = 3, index = None\<rparr>, \<lparr>val = 4, index = None\<rparr>,
                  \<lparr>val = 5, index = None\<rparr>]\<rparr>]\<rparr>"
    by (simp add: multiple_set_def new_SelectionSet_def select_def Let_def isSelected_def
        getTrackedByValue_def markSelected_def map_has_def getCurrentSelection_def map_values_def)
  show ?thesis
    using insertion_order_preserved
      [where dev = False and f = "None :: (int option \<Rightarrow> nat \<Rightarrow> nat) option"
         and a = "\<lparr>val = 2, index = None\<rparr>" and ka = "ByValue 2"
         and b = "\<lparr>val = 3, index = None\<rparr>" and kb = "ByValue 3"
         and c = "\<lparr>val = 4, index = None\<rparr>" and kc = "ByValue 4"
         and s = "snd (select False multiple_set
            [\<lparr>val = 2, index = None\<rparr>, \<lparr>val = 3, index = None\<rparr>, \<lparr>val = 4, index = None\<rparr>,
             \<lparr>val = 5, index = None\<rparr>])"
         and xs = "[\<lparr>val = 6, index = None\<rparr>, \<lparr>val = 7, index = None\<rparr>]"
         and ys = "[\<lparr>val = 3, index = None\<rparr>]"]
    by (simp add: s [unfolded multiple_set_def new_SelectionSet_def] keyOf_def
        getTrackedByValue_off multiple_set_def new_SelectionSet_def
        getCurrentSelection_def map_values_def)
qed

subsection \<open>Deselecting an entry that is not selected\<close>

text \<open>
  Claim C8: for every entry \<open>x\<close> whose derived key is not in the map, \<open>deselect(x)\<close>
  returns, leaves the map as it is and emits one event whose \<open>before\<close> and \<open>after\<close> are
  both the current selection. Nothing else of the object changes.
\<close>

theorem deselect_absent_changes_nothing:
  assumes "getTrackedByValue dev s x = Inr k"
    and "\<not> map_has (selectionMap s) k"
  shows "deselect dev s [x] =
           (None, s\<lparr>changed := changed s @
              [\<lparr>before = getCurrentSelection s, after = getCurrentSelection s\<rparr>]\<rparr>)"
  using assms by (simp add: deselect_def Let_def isSelected_def getCurrentSelection_def)

theorem deselect_absent_changes_nothing_witness:
  "getTrackedByValue True (snd (select True single_set [\<lparr>val = 4, index = None\<rparr>]))
     \<lparr>val = 2, index = None\<rparr> = Inr (ByValue 2) \<and>
   \<not> map_has (selectionMap (snd (select True single_set [\<lparr>val = 4, index = None\<rparr>]))) (ByValue 2) \<and>
   selectionMap (snd (deselect True (snd (select True single_set [\<lparr>val = 4, index = None\<rparr>]))
     [\<lparr>val = 2, index = None\<rparr>])) = [(ByValue 4, \<lparr>val = 4, index = None\<rparr>)] \<and>
   changed (snd (deselect True (snd (select True single_set [\<lparr>val = 4, index = None\<rparr>]))
     [\<lparr>val = 2, index = None\<rparr>])) =
     [\<lparr>before = [], after = [\<lparr>val = 4, index = None\<rparr>]\<rparr>,
      \<lparr>before = [\<lparr>val = 4, index = None\<rparr>], after = [\<lparr>val = 4, index = None\<rparr>]\<rparr>]"
proof -
  have s: "snd (select True single_set [\<lparr>val = 4, index = None\<rparr>]) =
     \<lparr>multiple = False, trackByFn = None,
      selectionMap = [(ByValue 4, \<lparr>val = 4, index = None\<rparr>)],
      changed = [\<lparr>before = [], after = [\<lparr>val = 4, index = None\<rparr>]\<rparr>]\<rparr>"
    by (simp add: single_set_def new_SelectionSet_def select_def Let_def isSelected_def
        getTrackedByValue_def markSelected_def map_has_def getCurrentSelection_def map_values_def)
  have g: "getTrackedByValue True (snd (select True single_set [\<lparr>val = 4, index = None\<rparr>]))
     \<lparr>val = 2, index = None\<rparr> = Inr (ByValue 2)"
    by (simp add: s getTrackedByValue_def)
  have h: "\<not> map_has (selectionMap (snd (select True single_set [\<lparr>val = 4, index = None\<rparr>])))
     (ByValue 2)"
    by (simp add: s map_has_def)
  show ?thesis
    using g h deselect_absent_changes_nothing [OF g h]
    by (simp add: s getCurrentSelection_def map_values_def)
qed

subsection \<open>The error comes before any effect\<close>

text \<open>
  Claim C9: with the diagnostic flag on, \<open>select\<close> or \<open>deselect\<close> with more than one
  entry while \<open>multiple = false\<close> raises "not multiple selection" and returns the object
  it was given: the map is unchanged and no event has been emitted.
\<close>

theorem not_multiple_raised_before_any_effect:
  assumes "\<not> multiple s" and "length xs > 1"
  shows "select True s xs = (Some NotMultiple, s) \<and> deselect True s xs = (Some NotMultiple, s)"
  using assms by (simp add: select_def deselect_def)

theorem not_multiple_raised_before_any_effect_witness:
  "\<not> multiple (snd (select True single_set [\<lparr>val = 4, index = None\<rparr>])) \<and>
   length [\<lparr>val = (2::nat), index = None\<rparr>, \<lparr>val = 3, index = None\<rparr>] > 1 \<and>
   select True (snd (select True single_set [\<lparr>val = 4, index = None\<rparr>]))
       [\<lparr>val = 2, index = None\<rparr>, \<lparr>val = 3, index = None\<rparr>] =
     (Some NotMultiple,
      \<lparr>multiple = False, trackByFn = None,
       selectionMap = [(ByValue 4, \<lparr>val = 4, index = None\<rparr>)],
       changed = [\<lparr>before = [], after = [\<lparr>val = 4, index = None\<rparr>]\<rparr>]\<rparr>) \<and>
   deselect True (snd (select True single_set [\<lparr>val = 4, index = None\<rparr>]))
       [\<lparr>val = 2, index = None\<rparr>, \<lparr>val = 3, index = None\<rparr>] =
     (Some NotMultiple,
      \<lparr>multiple = False, trackByFn = None,
       selectionMap = [(ByValue 4, \<lparr>val = 4, index = None\<rparr>)],
       changed = [\<lparr>before = [], after = [\<lparr>val = 4, index = None\<rparr>]\<rparr>]\<rparr>)"
proof -
  have s: "snd (select True single_set [\<lparr>val = 4, index = None\<rparr>]) =
     \<lparr>multiple = False, trackByFn = None,
      selectionMap = [(ByValue 4, \<lparr>val = 4, index = None\<rparr>)],
      changed = [\<lparr>before = [], after = [\<lparr>val = 4, index = None\<rparr>]\<rparr>]\<rparr>"
    by (simp add: single_set_def new_SelectionSet_def select_def Let_def isSelected_def
        getTrackedByValue_def markSelected_def map_has_def getCurrentSelection_def map_values_def)
  have m: "\<not> multiple (snd (select True single_set [\<lparr>val = 4, index = None\<rparr>]))"
    by (simp add: s)
  have l: "length [\<lparr>val = (2::nat), index = None\<rparr>, \<lparr>val = 3, index = None\<rparr>] > 1"
    by simp
  show ?thesis
    using m l not_multiple_raised_before_any_effect [OF m l] by (simp add: s)
qed

subsection \<open>Selecting nothing\<close>

text \<open>
  Claim C10: \<open>select()\<close> with no entry returns without error under either value of the
  diagnostic flag. With \<open>multiple = false\<close> it empties the map and emits an event whose
  \<open>before\<close> is the previous selection and whose \<open>after\<close> is empty; with
  \<open>multiple = true\<close> it leaves the map as it is and emits an event whose \<open>before\<close> and
  \<open>after\<close> are both the current selection.
\<close>

theorem select_nothing:
  "(\<not> multiple s \<longrightarrow>
      select dev s [] =
        (None, s\<lparr>selectionMap := [],
                  changed := changed s @ [\<lparr>before = getCurrentSelection s, after = []\<rparr>]\<rparr>)) \<and>
   (multiple s \<longrightarrow>
      select dev s [] =
        (None, s\<lparr>changed := changed s @
                  [\<lparr>before = getCurrentSelection s, after = getCurrentSelection s\<rparr>]\<rparr>))"
  by (simp add: select_def Let_def getCurrentSelection_def map_values_def)

theorem select_nothing_witness:
  "\<not> multiple (snd (select True single_set [\<lparr>val = 4, index = None\<rparr>])) \<and>
   select True (snd (select True single_set [\<lparr>val = 4, index = None\<rparr>])) [] =
     (None,
      \<lparr>multiple = False, trackByFn = None, selectionMap = [],
       changed = [\<lparr>before = [], after = [\<lparr>val = 4, index = None\<rparr>]\<rparr>,
                  \<lparr>before = [\<lparr>val = 4, index = None\<rparr>], after = []\<rparr>]\<rparr>) \<and>
   multiple (\<lparr>multiple = True, trackByFn = None :: (int option \<Rightarrow> nat \<Rightarrow> nat) option,
       selectionMap = [(ByValue 4, \<lparr>val = 4, index = None\<rparr>)], changed = []\<rparr>) \<and>
   select True \<lparr>multiple = True, trackByFn = None :: (int option \<Rightarrow> nat \<Rightarrow> nat) option,
       selectionMap = [(ByValue 4, \<lparr>val = 4, index = None\<rparr>)], changed = []\<rparr> [] =
     (None,
      \<lparr>multiple = True, trackByFn = None,
       selectionMap = [(ByValue 4, \<lparr>val = 4, index = None\<rparr>)],
       changed = [\<lparr>before = [\<lparr>val = 4, index = None\<rparr>],
                   after = [\<lparr>val = 4, index = None\<rparr>]\<rparr>]\<rparr>)"
proof -
  have s: "snd (select True single_set [\<lparr>val = 4, index = None\<rparr>]) =
     \<lparr>multiple = False, trackByFn = None,
      selectionMap = [(ByValue 4, \<lparr>val = 4, index = None\<rparr>)],
      changed = [\<lparr>before = [], after = [\<lparr>val = 4, index = None\<rparr>]\<rparr>]\<rparr>"
    by (simp add: single_set_def new_SelectionSet_def select_def Let_def isSelected_def
        getTrackedByValue_def markSelected_def map_has_def getCurrentSelection_def map_values_def)
  show ?thesis
    using select_nothing [of "snd (select True single_set [\<lparr>val = 4, index = None\<rparr>])" True]
      select_nothing [of "\<lparr>multiple = True, trackByFn = None :: (int option \<Rightarrow> nat \<Rightarrow> nat) option,
        selectionMap = [(ByValue 4, \<lparr>val = 4, index = None\<rparr>)], changed = []\<rparr>" True]
    by (simp add: s getCurrentSelection_def map_values_def)
qed

end
